theory Spec2Isabelle
  imports Main "HOL-Library.Multiset"
begin

section \<open>Data model of \<open>spring_amr/dataset.py\<close>\<close>

text \<open>
  Exceptions of the Python source are values. \<open>IndexError\<close> is a list read out of range,
  \<open>KeyError\<close> a missing dictionary key, \<open>TypeError\<close> a field that is not a tensor where
  one is padded, \<open>RuntimeError\<close> what torch raises (an empty list given to
  \<open>pad_sequence\<close>, a value an int64 tensor cannot hold), \<open>OverflowError\<close> a Python
  integer too large for a float.
\<close>

datatype error = IndexError | KeyError | TypeError | RuntimeError | OverflowError

text \<open>
  The values stored in an example dictionary: the integer id, a sentence string, a
  one-dimensional tensor of token ids, or an object the batching code only passes on
  (a graph, a linearisation), identified by a handle.
\<close>

datatype field = Index nat | Text string | Tokens "int list" | Object nat

type_synonym sample = "string \<rightharpoonup> field"

text \<open>
  \<open>AMRDataset\<close>: the parallel lists filled by the constructor, one entry per kept graph,
  and the two padding ids read from the tokenizers. A tensor of token ids is an
  \<open>int list\<close>; its \<open>size(0)\<close> and its \<open>len\<close> are the list's length.
\<close>

record amr_dataset =
  sentences :: "string list"
  tokenized :: "int list list"
  linearized :: "int list list"
  linearized_extra :: "sample list"
  sentences_en :: "string list"
  tokenized_en :: "int list list"
  sentences_teacher :: "string list"
  tokenized_teacher :: "int list list"
  pad_token_id :: int
  teacher_pad_token_id :: int

text \<open>\<open>AMRDataset.__len__\<close>.\<close>

definition dataset_len :: "amr_dataset \<Rightarrow> nat" where
  "dataset_len ds = length (sentences ds)"

text \<open>
  The constructor appends to \<open>sentences\<close>, \<open>tokenized\<close> and \<open>linearized\<close> in the same
  loop iteration, so the three lists of a constructed dataset have one length.
\<close>

definition parallel_lists :: "amr_dataset \<Rightarrow> bool" where
  "parallel_lists ds \<longleftrightarrow>
     length (tokenized ds) = length (sentences ds) \<and>
     length (linearized ds) = length (sentences ds)"

datatype device = CPU | CUDA nat

text \<open>\<open>AMRDatasetTokenBatcherAndLoader\<close>: the attributes set by \<open>__init__\<close>.\<close>

record loader =
  batch_size :: int
  dataset :: amr_dataset
  device :: device
  shuffle :: bool
  sort_flag :: bool

section \<open>The process-wide random generator\<close>

text \<open>
  \<open>random.shuffle\<close> of the Python standard library draws from the global generator.
  The generator is an explicit stream of draws here: \<open>randbelow n\<close> takes the next
  draw, reduced below \<open>n\<close>, and returns the rest of the stream.
\<close>

type_synonym rng = "nat \<Rightarrow> nat"

definition randbelow :: "nat \<Rightarrow> rng \<Rightarrow> nat \<times> rng" where
  "randbelow n g = (g 0 mod n, \<lambda>k. g (Suc k))"

text \<open>
  \<open>for i in reversed(range(1, len(x))): j = randbelow(i + 1); x[i], x[j] = x[j], x[i]\<close>
\<close>

primrec shuffle_from :: "nat \<Rightarrow> 'a list \<Rightarrow> rng \<Rightarrow> 'a list \<times> rng" where
  "shuffle_from 0 x g = (x, g)"
| "shuffle_from (Suc k) x g =
     (let i = Suc k;
          (j, g') = randbelow (i + 1) g
      in shuffle_from k (x[i := x ! j, j := x ! i]) g')"

definition random_shuffle :: "'a list \<Rightarrow> rng \<Rightarrow> 'a list \<times> rng" where
  "random_shuffle x g = shuffle_from (length x - 1) x g"

section \<open>The sampler\<close>

text \<open>
  \<open>ids.sort(key=lambda x: -lengths[x])\<close>: a stable sort by ascending key, that is by
  descending length. The key of every element is computed, and \<open>lengths[x]\<close> raises
  when \<open>x\<close> is out of range.
\<close>

definition sort_by_neg_length :: "nat list \<Rightarrow> nat list \<Rightarrow> error + nat list" where
  "sort_by_neg_length lengths ids =
     (if \<forall>x \<in> set ids. x < length lengths
      then Inr (sort_key (\<lambda>x. - int (lengths ! x)) ids)
      else Inl IndexError)"

text \<open>
  The first part of \<open>sampler\<close> (the id list, shuffled and sorted as configured), with
  the generator it leaves behind.
\<close>

definition sampler_ids :: "loader \<Rightarrow> rng \<Rightarrow> (error + nat list) \<times> rng" where
  "sampler_ids ld g =
     (let ids = [0 ..< dataset_len (dataset ld)];
          (ids, g) = (if shuffle ld then random_shuffle ids g else (ids, g))
      in if sort_flag ld then
           (let lengths = (if shuffle ld
                           then map length (linearized (dataset ld))
                           else map length (tokenized (dataset ld)))
            in (sort_by_neg_length lengths ids, g))
         else (Inr ids, g))"

text \<open>The running group of the sampler: the four \<open>nonlocal\<close> variables.\<close>

record sampler_state =
  batch_longest :: nat
  batch_nexamps :: nat
  batch_ntokens :: nat
  batch_ids :: "nat list"

definition init_state :: sampler_state where
  "init_state = \<lparr>batch_longest = 0, batch_nexamps = 0, batch_ntokens = 0, batch_ids = []\<rparr>"

text \<open>\<open>discharge\<close> returns a copy of the current group and resets the running state.\<close>

definition discharge :: "sampler_state \<Rightarrow> nat list \<times> sampler_state" where
  "discharge st =
     (let ret = batch_ids st
      in (ret, st\<lparr>batch_longest := batch_longest st * 0,
                  batch_nexamps := batch_nexamps st * 0,
                  batch_ntokens := batch_ntokens st * 0,
                  batch_ids := []\<rparr>))"

text \<open>
  One iteration of the \<open>while\<close> loop for the popped \<open>idx\<close>: the groups it yields, in
  order, and the state it leaves. Reading \<open>linearized[idx]\<close> out of range raises
  before anything is yielded in that iteration.
\<close>

definition sampler_body :: "loader \<Rightarrow> nat \<Rightarrow> sampler_state \<Rightarrow> error + (nat list list \<times> sampler_state)" where
  "sampler_body ld idx st =
     (if idx < length (linearized (dataset ld)) then
        (let size = length (linearized (dataset ld) ! idx);
             cand_batch_ntokens = max size (batch_longest st) * (batch_nexamps st + 1);
             (out1, st1) = (if int cand_batch_ntokens > batch_size ld \<and> batch_ids st \<noteq> []
                            then (let (ret, s) = discharge st in ([ret], s))
                            else ([], st));
             st2 = st1\<lparr>batch_longest := max (batch_longest st1) size\<rparr>;
             st3 = st2\<lparr>batch_nexamps := batch_nexamps st2 + 1\<rparr>;
             st4 = st3\<lparr>batch_ntokens := batch_longest st3 * batch_nexamps st3\<rparr>;
             st5 = st4\<lparr>batch_ids := batch_ids st4 @ [idx]\<rparr>;
             (out2, st6) = (if length (batch_ids st5) = 1 \<and> int (batch_ntokens st5) > batch_size ld
                            then (let (ret, s) = discharge st5 in ([ret], s))
                            else ([], st5))
         in Inr (out1 @ out2, st6))
      else Inl IndexError)"

text \<open>
  \<open>while ids: idx = ids.pop() ...\<close> and the final flush. The result is the sequence of
  groups the generator yields and how it ends: \<open>None\<close> when it is exhausted, the
  exception when it raises after the groups yielded so far.
\<close>

function sampler_loop :: "loader \<Rightarrow> nat list \<Rightarrow> sampler_state \<Rightarrow> nat list list \<times> error option" where
  "sampler_loop ld ids st =
     (if ids \<noteq> [] then
        (case sampler_body ld (last ids) st of
           Inl e \<Rightarrow> ([], Some e)
         | Inr (out, st') \<Rightarrow>
             (let (rest, r) = sampler_loop ld (butlast ids) st' in (out @ rest, r)))
      else if batch_ids st \<noteq> [] then ([fst (discharge st)], None)
      else ([], None))"
  by pat_completeness auto
termination
  by (relation "measure (\<lambda>(ld, ids, st). length ids)") auto

declare sampler_loop.simps [simp del]

text \<open>\<open>AMRDatasetTokenBatcherAndLoader.sampler\<close>, run to its end.\<close>

definition sampler :: "loader \<Rightarrow> rng \<Rightarrow> (nat list list \<times> error option) \<times> rng" where
  "sampler ld g =
     (case sampler_ids ld g of
        (Inl e, g') \<Rightarrow> (([], Some e), g')
      | (Inr ids, g') \<Rightarrow> (sampler_loop ld ids init_state, g'))"

section \<open>The collator\<close>

text \<open>
  A two-dimensional tensor: its rows and the device that holds it. The tensors of the
  dataset are created on the CPU, so \<open>pad_sequence\<close> returns a CPU tensor.
\<close>

record tensor =
  rows :: "int list list"
  placed_on :: device

text \<open>\<open>tensor.to(device)\<close>, for a device that is present.\<close>

definition to_device :: "tensor \<Rightarrow> device \<Rightarrow> tensor" where
  "to_device t d = t\<lparr>placed_on := d\<rparr>"

text \<open>\<open>[s[key_value] for s in samples]\<close>: the first sample without the key raises.\<close>

fun lookup_each :: "string \<Rightarrow> sample list \<Rightarrow> error + field list" where
  "lookup_each key_value [] = Inr []"
| "lookup_each key_value (s # samples) =
     (case s key_value of
        None \<Rightarrow> Inl KeyError
      | Some v \<Rightarrow>
          (case lookup_each key_value samples of
             Inl e \<Rightarrow> Inl e
           | Inr vs \<Rightarrow> Inr (v # vs)))"

text \<open>The token sequences of a list of fields; a field that is not a tensor cannot be padded.\<close>

fun tokens_of :: "field list \<Rightarrow> error + int list list" where
  "tokens_of [] = Inr []"
| "tokens_of (Tokens t # fs) =
     (case tokens_of fs of Inl e \<Rightarrow> Inl e | Inr ts \<Rightarrow> Inr (t # ts))"
| "tokens_of (f # fs) = Inl TypeError"

text \<open>
  The padding value is a Python integer, and the padded tensor holds 64-bit integers.
  \<open>pad_sequence\<close> takes its \<open>padding_value\<close> as a float, so the integer is first
  converted to a double, rounding to the nearest double with ties to the even
  mantissa. \<open>bit_length\<close> is Python's \<open>int.bit_length\<close>; \<open>as_double\<close> is the value of
  the double as an integer. Integers of magnitude up to \<open>2^53\<close> are doubles themselves.
\<close>

fun bit_length :: "nat \<Rightarrow> nat" where
  "bit_length n = (if n = 0 then 0 else 1 + bit_length (n div 2))"

declare bit_length.simps [simp del]

definition as_double :: "int \<Rightarrow> int" where
  "as_double p =
     (if \<bar>p\<bar> \<le> 2 ^ 53 then p
      else (let n = nat \<bar>p\<bar>;
                e = bit_length n - 53;
                q = n div 2 ^ e;
                r = n mod 2 ^ e;
                q' = (if 2 ^ e < 2 * r \<or> (2 * r = 2 ^ e \<and> odd q) then q + 1 else q)
            in sgn p * int (q' * 2 ^ e)))"

text \<open>
  The value an int64 tensor holds after it is filled with the padding value: the
  double, when it is a 64-bit integer. A Python integer beyond the range of a double
  raises OverflowError at the conversion, a double beyond the 64-bit range raises
  when the tensor is filled.
\<close>

definition fill_int64 :: "int \<Rightarrow> error + int" where
  "fill_int64 padding_value =
     (let d = as_double padding_value
      in if - (2 ^ 63) \<le> d \<and> d < 2 ^ 63 then Inr d
         else if 2 ^ 1024 \<le> \<bar>d\<bar> then Inl OverflowError
         else Inl RuntimeError)"

text \<open>
  \<open>torch.nn.utils.rnn.pad_sequence(sequences, batch_first=True, padding_value)\<close>: one
  row per sequence, in the order given, each filled up to the longest length with the
  value the tensor holds for the padding value. An empty list of sequences raises.
\<close>

definition pad_sequence :: "field list \<Rightarrow> int \<Rightarrow> error + tensor" where
  "pad_sequence sequences padding_value =
     (if sequences = [] then Inl RuntimeError
      else (case tokens_of sequences of
              Inl e \<Rightarrow> Inl e
            | Inr ts \<Rightarrow>
                (case fill_int64 padding_value of
                   Inl e \<Rightarrow> Inl e
                 | Inr v \<Rightarrow>
                     (let max_len = fold max (map length ts) 0
                      in Inr \<lparr>rows = map (\<lambda>t. t @ replicate (max_len - length t) v) ts,
                              placed_on = CPU\<rparr>))))"

text \<open>
  \<open>torch.ne(input_ids, padding_value).to(torch.int64)\<close>: the comparison is with the
  Python integer itself, which has to be a 64-bit integer.
\<close>

definition ne :: "tensor \<Rightarrow> int \<Rightarrow> error + tensor" where
  "ne t padding_value =
     (if - (2 ^ 63) \<le> padding_value \<and> padding_value < 2 ^ 63
      then Inr (t\<lparr>rows := map (map (\<lambda>v. if v \<noteq> padding_value then 1 else 0)) (rows t)\<rparr>)
      else Inl RuntimeError)"

text \<open>
  \<open>to_tensor\<close>: the padded tensor, and the mask when \<open>return_mask\<close> is set (\<open>None\<close>
  stands for the one-value return of the source).
\<close>

definition to_tensor :: "sample list \<Rightarrow> string \<Rightarrow> int \<Rightarrow> device \<Rightarrow> bool \<Rightarrow> error + (tensor \<times> tensor option)" where
  "to_tensor samples key_value padding_value dev return_mask =
     (case lookup_each key_value samples of
        Inl e \<Rightarrow> Inl e
      | Inr tokenized' \<Rightarrow>
          (case pad_sequence tokenized' padding_value of
             Inl e \<Rightarrow> Inl e
           | Inr input_ids \<Rightarrow>
               if \<not> return_mask then Inr (to_device input_ids dev, None)
               else (case ne input_ids padding_value of
                       Inl e \<Rightarrow> Inl e
                     | Inr attention_mask \<Rightarrow>
                         Inr (to_device input_ids dev, Some (to_device attention_mask dev)))))"

text \<open>\<open>AMRDataset.__getitem__\<close>.\<close>

definition getitem :: "amr_dataset \<Rightarrow> nat \<Rightarrow> error + sample" where
  "getitem ds idx =
     (if \<not> idx < length (sentences ds) then Inl IndexError
      else if \<not> idx < length (tokenized ds) then Inl IndexError
      else
        (let sample = [''id'' \<mapsto> Index idx,
                       ''sentence'' \<mapsto> Text (sentences ds ! idx),
                       ''tokenized_ids'' \<mapsto> Tokens (tokenized ds ! idx)]
         in case (if linearized ds \<noteq> [] then
                    (if \<not> idx < length (linearized ds) then Inl IndexError
                     else if \<not> idx < length (linearized_extra ds) then Inl IndexError
                     else Inr ((sample(''linearized_graphs_ids'' \<mapsto> Tokens (linearized ds ! idx)))
                               ++ (linearized_extra ds ! idx)))
                  else Inr sample) of
              Inl e \<Rightarrow> Inl e
            | Inr sample \<Rightarrow>
           (case (if tokenized_en ds \<noteq> [] then
                    (if \<not> idx < length (tokenized_en ds) then Inl IndexError
                     else if \<not> idx < length (sentences_en ds) then Inl IndexError
                     else Inr (sample(''tokenized_ids_en'' \<mapsto> Tokens (tokenized_en ds ! idx),
                                      ''sentence_en'' \<mapsto> Text (sentences_en ds ! idx))))
                  else Inr sample) of
              Inl e \<Rightarrow> Inl e
            | Inr sample \<Rightarrow>
                (if tokenized_teacher ds \<noteq> [] then
                   (if \<not> idx < length (tokenized_teacher ds) then Inl IndexError
                    else if \<not> idx < length (sentences_teacher ds) then Inl IndexError
                    else Inr (sample(''tokenized_ids_teacher'' \<mapsto> Tokens (tokenized_teacher ds ! idx),
                                     ''sentence_teacher'' \<mapsto> Text (sentences_teacher ds ! idx))))
                 else Inr sample))))"

text \<open>What \<open>collate_fn\<close> returns: \<open>x\<close>, \<open>y\<close> and the entries of \<open>extra\<close>.\<close>

record batch =
  input_ids :: tensor
  attention_mask :: tensor
  y :: "(tensor \<times> tensor) option"
  extra_sentences :: "field list"
  extra_graphs :: "field list option"
  extra_linearized_graphs :: "field list option"
  extra_ids :: "field list"
  input_ids_en :: tensor
  attention_mask_en :: tensor
  input_ids_teacher :: tensor
  attention_mask_teacher :: tensor

text \<open>
  The branch of \<open>collate_fn\<close> on \<open>'linearized_graphs_ids' in samples[0]\<close>: the graphs,
  the linearised graphs and \<open>y\<close> (\<open>decoder_input_ids = batch[:, :-1]\<close>,
  \<open>labels = batch[:, 1:]\<close>), or nothing.
\<close>

definition collate_targets ::
  "amr_dataset \<Rightarrow> sample list \<Rightarrow> device \<Rightarrow>
   error + (field list option \<times> field list option \<times> (tensor \<times> tensor) option)" where
  "collate_targets ds samples dev =
     (case samples of
        [] \<Rightarrow> Inl IndexError
      | s0 # _ \<Rightarrow>
          if ''linearized_graphs_ids'' \<in> dom s0 then
            (case lookup_each ''graphs'' samples of
               Inl e \<Rightarrow> Inl e
             | Inr graphs \<Rightarrow>
            (case lookup_each ''linearized_graphs'' samples of
               Inl e \<Rightarrow> Inl e
             | Inr linearized_graphs \<Rightarrow>
            (case to_tensor samples ''linearized_graphs_ids'' (pad_token_id ds) dev False of
               Inl e \<Rightarrow> Inl e
             | Inr (b, _) \<Rightarrow>
                 Inr (Some graphs, Some linearized_graphs,
                      Some (b\<lparr>rows := map butlast (rows b)\<rparr>, b\<lparr>rows := map tl (rows b)\<rparr>)))))
          else Inr (None, None, None))"

text \<open>\<open>AMRDataset.collate_fn\<close>, in the order of the source's statements.\<close>

definition collate_fn :: "amr_dataset \<Rightarrow> sample list \<Rightarrow> device \<Rightarrow> error + batch" where
  "collate_fn ds samples dev =
     (case to_tensor samples ''tokenized_ids'' (pad_token_id ds) dev True of
        Inl e \<Rightarrow> Inl e
      | Inr (_, None) \<Rightarrow> Inl TypeError
      | Inr (ids, Some mask') \<Rightarrow>
     (case lookup_each ''sentence'' samples of
        Inl e \<Rightarrow> Inl e
      | Inr sents \<Rightarrow>
     (case collate_targets ds samples dev of
        Inl e \<Rightarrow> Inl e
      | Inr (graphs, linearized_graphs, target) \<Rightarrow>
     (case lookup_each ''id'' samples of
        Inl e \<Rightarrow> Inl e
      | Inr sample_ids \<Rightarrow>
     (case to_tensor samples ''tokenized_ids_en'' (pad_token_id ds) dev True of
        Inl e \<Rightarrow> Inl e
      | Inr (_, None) \<Rightarrow> Inl TypeError
      | Inr (ids_en, Some mask_en) \<Rightarrow>
     (case to_tensor samples ''tokenized_ids_teacher'' (teacher_pad_token_id ds) dev True of
        Inl e \<Rightarrow> Inl e
      | Inr (_, None) \<Rightarrow> Inl TypeError
      | Inr (ids_teacher, Some mask_teacher) \<Rightarrow>
          Inr \<lparr>input_ids = ids, attention_mask = mask', y = target,
               extra_sentences = sents, extra_graphs = graphs,
               extra_linearized_graphs = linearized_graphs, extra_ids = sample_ids,
               input_ids_en = ids_en, attention_mask_en = mask_en,
               input_ids_teacher = ids_teacher, attention_mask_teacher = mask_teacher\<rparr>))))))"

section \<open>The loader\<close>

text \<open>
  \<open>AMRDatasetTokenBatcherAndLoader.__init__\<close> stores its arguments. Its body has no
  check and no \<open>raise\<close>, so the result is the loader for every argument.
\<close>

definition init :: "amr_dataset \<Rightarrow> int \<Rightarrow> device \<Rightarrow> bool \<Rightarrow> bool \<Rightarrow> error + loader" where
  "init ds bs dev shuf srt =
     Inr \<lparr>batch_size = bs, dataset = ds, device = dev, shuffle = shuf, sort_flag = srt\<rparr>"

text \<open>\<open>[self.dataset[s] for s in b]\<close> and \<open>[[self.dataset[s] for s in b] for b in it]\<close>.\<close>

fun getitem_each :: "amr_dataset \<Rightarrow> nat list \<Rightarrow> error + sample list" where
  "getitem_each ds [] = Inr []"
| "getitem_each ds (s # b) =
     (case getitem ds s of
        Inl e \<Rightarrow> Inl e
      | Inr x \<Rightarrow> (case getitem_each ds b of Inl e \<Rightarrow> Inl e | Inr xs \<Rightarrow> Inr (x # xs)))"

fun getitem_groups :: "amr_dataset \<Rightarrow> nat list list \<Rightarrow> error + sample list list" where
  "getitem_groups ds [] = Inr []"
| "getitem_groups ds (b # it) =
     (case getitem_each ds b of
        Inl e \<Rightarrow> Inl e
      | Inr xs \<Rightarrow> (case getitem_groups ds it of Inl e \<Rightarrow> Inl e | Inr xss \<Rightarrow> Inr (xs # xss)))"

text \<open>
  \<open>__iter__\<close> up to the generator expression it returns. The list comprehension runs
  the sampler to its end, looking up each group as it is yielded, so an exception of
  the sampler comes after the lookups of the groups yielded before it. The value is
  the list of looked-up groups the returned generator will collate, one per \<open>next\<close>.
\<close>

definition loader_iter :: "loader \<Rightarrow> rng \<Rightarrow> (error + sample list list) \<times> rng" where
  "loader_iter ld g =
     (case sampler ld g of
        ((groups, r), g1) \<Rightarrow>
          (case getitem_groups (dataset ld) groups of
             Inl e \<Rightarrow> (Inl e, g1)
           | Inr it \<Rightarrow>
               (case r of
                  Some e \<Rightarrow> (Inl e, g1)
                | None \<Rightarrow>
                    (if shuffle ld
                     then (let (it', g2) = random_shuffle it g1 in (Inr it', g2))
                     else (Inr it, g1)))))"

text \<open>
  One \<open>next\<close> on the generator \<open>(self.dataset.collate_fn(b, device=self.device) for b in it)\<close>.
  The element expression is evaluated at each \<open>next\<close>, so \<open>self.dataset\<close> and
  \<open>self.device\<close> are read from the loader as it is then: \<open>ld\<close> is the loader at the
  time of the call, \<open>it\<close> the groups not collated yet. \<open>None\<close> is StopIteration; a
  generator that raised is finished.
\<close>

definition iter_next :: "loader \<Rightarrow> sample list list \<Rightarrow> ((error + batch) \<times> sample list list) option" where
  "iter_next ld it =
     (case it of
        [] \<Rightarrow> None
      | b # rest \<Rightarrow>
          (case collate_fn (dataset ld) b (device ld) of
             Inl e \<Rightarrow> Some (Inl e, [])
           | Inr v \<Rightarrow> Some (Inr v, rest)))"

section \<open>Notions the properties are stated with\<close>

text \<open>The longest bucketing length in a group of ids, and the padded cost of the group.\<close>

definition group_longest :: "amr_dataset \<Rightarrow> nat list \<Rightarrow> nat" where
  "group_longest ds grp = fold max (map (\<lambda>i. length (linearized ds ! i)) grp) 0"

definition group_cost :: "amr_dataset \<Rightarrow> nat list \<Rightarrow> nat" where
  "group_cost ds grp = group_longest ds grp * length grp"

definition within_budget :: "loader \<Rightarrow> nat list \<Rightarrow> bool" where
  "within_budget ld grp \<longleftrightarrow>
     (1 < length grp \<longrightarrow> int (group_cost (dataset ld) grp) \<le> batch_size ld)"

text \<open>The running state describes the current group, and that group is within budget.\<close>

definition state_inv :: "loader \<Rightarrow> sampler_state \<Rightarrow> bool" where
  "state_inv ld st \<longleftrightarrow>
     batch_nexamps st = length (batch_ids st) \<and>
     batch_longest st = group_longest (dataset ld) (batch_ids st) \<and>
     within_budget ld (batch_ids st)"

text \<open>Every tensor of a batch is on the device \<open>d\<close>.\<close>

definition batch_on :: "device \<Rightarrow> batch \<Rightarrow> bool" where
  "batch_on d b \<longleftrightarrow>
     placed_on (input_ids b) = d \<and> placed_on (attention_mask b) = d \<and>
     placed_on (input_ids_en b) = d \<and> placed_on (attention_mask_en b) = d \<and>
     placed_on (input_ids_teacher b) = d \<and> placed_on (attention_mask_teacher b) = d \<and>
     (case y b of None \<Rightarrow> True | Some (dec, lab) \<Rightarrow> placed_on dec = d \<and> placed_on lab = d)"

text \<open>Row \<open>i\<close> of a padded tensor at the positions where the mask is 1.\<close>

definition unpad_row :: "tensor \<Rightarrow> tensor \<Rightarrow> nat \<Rightarrow> int list" where
  "unpad_row t m i = map fst (filter (\<lambda>(v, b). b = 1) (zip (rows t ! i) (rows m ! i)))"

text \<open>The device of the batch the next \<open>next\<close> produces, when it produces one.\<close>

definition next_batch_device :: "loader \<Rightarrow> sample list list \<Rightarrow> device option" where
  "next_batch_device ld it =
     (case iter_next ld it of
        Some (Inr v, _) \<Rightarrow> Some (placed_on (input_ids v))
      | _ \<Rightarrow> None)"

subsection \<open>Concrete inputs\<close>

text \<open>
  Three examples with bucketing lengths 5, 3 and 9 and primary lengths 4, 6 and 3,
  padding id 1.
\<close>

definition example_extra :: "nat \<Rightarrow> sample" where
  "example_extra k = [''graphs'' \<mapsto> Object (2 * k), ''linearized_graphs'' \<mapsto> Object (2 * k + 1)]"

definition example_dataset :: amr_dataset where
  "example_dataset =
     \<lparr>sentences = [''a b'', ''c'', ''d e f g''],
      tokenized = [[0, 11, 12, 2], [0, 13, 14, 15, 16, 2], [0, 17, 2]],
      linearized = [[0, 21, 22, 23, 2], [0, 24, 2], [0, 25, 26, 27, 28, 29, 30, 31, 2]],
      linearized_extra = [example_extra 0, example_extra 1, example_extra 2],
      sentences_en = [''a b'', ''c'', ''d e f g''],
      tokenized_en = [[0, 11, 12, 2], [0, 13, 14, 15, 16, 2], [0, 17, 2]],
      sentences_teacher = [''a b'', ''c'', ''d e f g''],
      tokenized_teacher = [[0, 11, 12, 2], [0, 13, 14, 15, 16, 2], [0, 17, 2]],
      pad_token_id = 1,
      teacher_pad_token_id = 1\<rparr>"

definition example_loader :: "int \<Rightarrow> bool \<Rightarrow> bool \<Rightarrow> loader" where
  "example_loader bs shuf srt =
     \<lparr>batch_size = bs, dataset = example_dataset, device = CPU, shuffle = shuf, sort_flag = srt\<rparr>"

text \<open>Two states of the random generator: every draw 0, and every draw 1.\<close>

definition zero_rng :: rng where
  "zero_rng = (\<lambda>_. 0)"

definition one_rng :: rng where
  "one_rng = (\<lambda>_. 1)"

text \<open>A sample whose token sequence starts with the padding id 1.\<close>

definition pad_clash_sample :: sample where
  "pad_clash_sample = [''tokenized_ids'' \<mapsto> Tokens [1, 2]]"

definition plain_samples :: "sample list" where
  "plain_samples = [[''tokenized_ids'' \<mapsto> Tokens [5, 6, 7]], [''tokenized_ids'' \<mapsto> Tokens [8]]]"

text \<open>
  The groups an iteration over the example loader (budget 20, no shuffle, no sort) has
  pending when it starts, and the same loader after \<open>loader.device = cuda:0\<close>.
\<close>

definition example_pending :: "sample list list" where
  "example_pending =
     (case fst (loader_iter (example_loader 20 False False) zero_rng) of
        Inr it \<Rightarrow> it
      | Inl _ \<Rightarrow> [])"

text \<open>The groups pending when shuffle is on and every draw is 0.\<close>

definition shuffled_pending :: "sample list list" where
  "shuffled_pending =
     (case fst (loader_iter (example_loader 20 True False) zero_rng) of
        Inr it \<Rightarrow> it
      | Inl _ \<Rightarrow> [])"

definition moved_loader :: loader where
  "moved_loader = (example_loader 20 False False)\<lparr>device := CUDA 0\<rparr>"

section \<open>Properties of the sampler\<close>

lemma group_longest_Nil: "group_longest ds [] = 0"
  by (simp add: group_longest_def)

lemma group_longest_single: "group_longest ds [i] = length (linearized ds ! i)"
  by (simp add: group_longest_def)

lemma group_longest_snoc:
  "group_longest ds (grp @ [i]) = max (group_longest ds grp) (length (linearized ds ! i))"
  by (simp add: group_longest_def max.commute)

lemma fold_max_ge: "(a::nat) \<le> fold max xs a"
  by (induction xs arbitrary: a) (auto intro: order_trans [OF max.cobounded2])

lemma fold_max_member: "(x::nat) \<in> set xs \<Longrightarrow> x \<le> fold max xs a"
proof (induction xs arbitrary: a)
  case Nil
  then show ?case by simp
next
  case (Cons y ys)
  show ?case
  proof (cases "x = y")
    case True
    have "max y a \<le> fold max ys (max y a)" by (rule fold_max_ge)
    then show ?thesis using True by simp
  next
    case False
    then show ?thesis using Cons by simp
  qed
qed

lemma group_longest_member:
  "i \<in> set grp \<Longrightarrow> length (linearized ds ! i) \<le> group_longest ds grp"
  by (simp add: group_longest_def fold_max_member)

lemma sampler_loop_Nil:
  "sampler_loop ld [] st =
     (if batch_ids st \<noteq> [] then ([fst (discharge st)], None) else ([], None))"
  by (simp add: sampler_loop.simps)

lemma sampler_loop_pop:
  "ids \<noteq> [] \<Longrightarrow> sampler_loop ld ids st =
     (case sampler_body ld (last ids) st of
        Inl e \<Rightarrow> ([], Some e)
      | Inr (out, st') \<Rightarrow>
          (let (rest, r) = sampler_loop ld (butlast ids) st' in (out @ rest, r)))"
  by (subst sampler_loop.simps) simp

lemma state_inv_init: "state_inv ld init_state"
  by (simp add: state_inv_def init_state_def group_longest_Nil within_budget_def)

lemma sampler_body_in_range:
  "idx < length (linearized (dataset ld)) \<Longrightarrow>
   \<exists>out st'. sampler_body ld idx st = Inr (out, st')"
  by (simp add: sampler_body_def Let_def case_prod_beta)

lemma sampler_body_inv:
  assumes "state_inv ld st" and "sampler_body ld idx st = Inr (out, st')"
  shows "state_inv ld st'"
    and "\<forall>grp \<in> set out. grp \<noteq> [] \<and> within_budget ld grp"
    and "mset (concat out) + mset (batch_ids st') = mset (batch_ids st) + {#idx#}"
  using assms
  by (auto simp: sampler_body_def state_inv_def within_budget_def group_cost_def
      group_longest_snoc group_longest_Nil group_longest_single discharge_def Let_def
      max.commute distrib_left
      split: if_splits)

lemma sampler_loop_groups:
  "state_inv ld st \<Longrightarrow> grp \<in> set (fst (sampler_loop ld ids st)) \<Longrightarrow>
   grp \<noteq> [] \<and> within_budget ld grp"
proof (induction ld ids st rule: sampler_loop.induct)
  case (1 ld ids st)
  show ?case
  proof (cases "ids = []")
    case True
    with "1.prems" show ?thesis
      by (auto simp: sampler_loop_Nil discharge_def state_inv_def split: if_splits)
  next
    case False
    show ?thesis
    proof (cases "sampler_body ld (last ids) st")
      case (Inl e)
      with False "1.prems" show ?thesis
        by (simp add: sampler_loop_pop)
    next
      case (Inr p)
      obtain out st' where p: "p = (out, st')" by (cases p)
      note body = sampler_body_inv [OF "1.prems"(1) Inr [unfolded p]]
      from "1.prems"(2) False Inr p
      have "grp \<in> set out \<or> grp \<in> set (fst (sampler_loop ld (butlast ids) st'))"
        by (auto simp: sampler_loop_pop split: prod.splits)
      then show ?thesis
      proof
        assume "grp \<in> set out"
        with body(2) show ?thesis by blast
      next
        assume "grp \<in> set (fst (sampler_loop ld (butlast ids) st'))"
        with "1.IH" [OF False Inr [unfolded p] refl body(1)] show ?thesis by blast
      qed
    qed
  qed
qed

lemma sampler_groups:
  assumes "grp \<in> set (fst (fst (sampler ld g)))"
  shows "grp \<noteq> [] \<and> within_budget ld grp"
proof (cases "fst (sampler_ids ld g)")
  case (Inl e)
  with assms show ?thesis
    by (simp add: sampler_def split: prod.splits sum.splits)
next
  case (Inr ids)
  with assms have "grp \<in> set (fst (sampler_loop ld ids init_state))"
    by (simp add: sampler_def split: prod.splits sum.splits)
  with state_inv_init show ?thesis by (rule sampler_loop_groups)
qed

lemma shuffle_from_mset:
  "k < length x \<Longrightarrow> mset (fst (shuffle_from k x g)) = mset x"
proof (induction k arbitrary: x g)
  case 0
  then show ?case by simp
next
  case (Suc k)
  let ?j = "g 0 mod (Suc k + 1)"
  let ?x' = "x[Suc k := x ! ?j, ?j := x ! Suc k]"
  have "?j < Suc k + 1" by (rule mod_less_divisor) simp
  then have j: "?j < length x"
    using Suc.prems by linarith
  have swap: "mset ?x' = mset x"
    using Suc.prems j by (simp add: mset_swap)
  have "k < length ?x'" using Suc.prems by simp
  from Suc.IH [OF this] swap show ?case
    by (simp add: randbelow_def)
qed

lemma random_shuffle_mset: "mset (fst (random_shuffle x g)) = mset x"
proof (cases x)
  case Nil
  then show ?thesis by (simp add: random_shuffle_def)
next
  case (Cons a as)
  then show ?thesis by (simp add: random_shuffle_def shuffle_from_mset)
qed

lemma sampler_loop_partition:
  "state_inv ld st \<Longrightarrow> \<forall>i \<in> set ids. i < length (linearized (dataset ld)) \<Longrightarrow>
   snd (sampler_loop ld ids st) = None \<and>
   mset (concat (fst (sampler_loop ld ids st))) = mset (batch_ids st) + mset ids"
proof (induction ld ids st rule: sampler_loop.induct)
  case (1 ld ids st)
  show ?case
  proof (cases "ids = []")
    case True
    then show ?thesis
      by (simp add: sampler_loop_Nil discharge_def)
  next
    case False
    then have last_in: "last ids \<in> set ids" by simp
    with "1.prems"(2) have "last ids < length (linearized (dataset ld))" by blast
    then obtain out st' where body: "sampler_body ld (last ids) st = Inr (out, st')"
      using sampler_body_in_range by blast
    note inv = sampler_body_inv [OF "1.prems"(1) body]
    have "\<forall>i \<in> set (butlast ids). i < length (linearized (dataset ld))"
      using "1.prems"(2) by (meson in_set_butlastD)
    from "1.IH" [OF False body refl inv(1) this]
    have rest: "snd (sampler_loop ld (butlast ids) st') = None"
      and part: "mset (concat (fst (sampler_loop ld (butlast ids) st'))) =
                 mset (batch_ids st') + mset (butlast ids)"
      by simp_all
    have "mset (butlast ids @ [last ids]) = mset (butlast ids) + {#last ids#}"
      by simp
    then have ids: "mset ids = mset (butlast ids) + {#last ids#}"
      using False by simp
    have loop: "sampler_loop ld ids st =
        (out @ fst (sampler_loop ld (butlast ids) st'), snd (sampler_loop ld (butlast ids) st'))"
      using False body by (simp add: sampler_loop_pop split: prod.splits)
    have "mset (concat (out @ fst (sampler_loop ld (butlast ids) st'))) =
          mset (concat out) + mset (batch_ids st') + mset (butlast ids)"
      using part by simp
    also have "\<dots> = mset (batch_ids st) + {#last ids#} + mset (butlast ids)"
      using inv(3) by simp
    also have "\<dots> = mset (batch_ids st) + mset ids"
      using ids by simp
    finally show ?thesis using loop rest by simp
  qed
qed

text \<open>The id list before sorting: the range, shuffled when shuffling is on.\<close>

lemma sampler_ids_unsorted:
  "\<not> sort_flag ld \<Longrightarrow>
   fst (sampler_ids ld g) =
     Inr (if shuffle ld then fst (random_shuffle [0 ..< dataset_len (dataset ld)] g)
          else [0 ..< dataset_len (dataset ld)])"
  by (simp add: sampler_ids_def Let_def split: prod.splits)

lemma sampler_ids_sorted:
  "sort_flag ld \<Longrightarrow>
   fst (sampler_ids ld g) =
     sort_by_neg_length
       (if shuffle ld then map length (linearized (dataset ld))
        else map length (tokenized (dataset ld)))
       (if shuffle ld then fst (random_shuffle [0 ..< dataset_len (dataset ld)] g)
        else [0 ..< dataset_len (dataset ld)])"
  by (simp add: sampler_ids_def Let_def split: prod.splits)

lemma sampler_ids_ok:
  assumes "parallel_lists (dataset ld)"
  shows "\<exists>ids. fst (sampler_ids ld g) = Inr ids \<and>
               mset ids = mset [0 ..< dataset_len (dataset ld)]"
proof -
  let ?n = "dataset_len (dataset ld)"
  let ?pre = "if shuffle ld then fst (random_shuffle [0 ..< ?n] g) else [0 ..< ?n]"
  have pre: "mset ?pre = mset [0 ..< ?n]"
    by (simp add: random_shuffle_mset)
  then have "set ?pre = set [0 ..< ?n]" by (rule mset_eq_setD)
  then have range: "\<forall>x \<in> set ?pre. x < ?n" by simp
  show ?thesis
  proof (cases "sort_flag ld")
    case False
    then show ?thesis using pre
      by (simp add: sampler_ids_unsorted)
  next
    case True
    have len: "length (linearized (dataset ld)) = ?n" "length (tokenized (dataset ld)) = ?n"
      using assms by (simp_all add: parallel_lists_def dataset_len_def)
    show ?thesis using True pre range len
      by (simp add: sampler_ids_sorted sort_by_neg_length_def)
  qed
qed


lemma sort_by_neg_length_spec:
  assumes "\<forall>x \<in> set ids. x < length ls"
  shows "\<exists>r. sort_by_neg_length (map length ls) ids = Inr r \<and>
             mset r = mset ids \<and>
             sorted_wrt (\<lambda>a b. length (ls ! b) \<le> length (ls ! a)) r \<and>
             (\<forall>k. filter (\<lambda>x. length (ls ! x) = k) r = filter (\<lambda>x. length (ls ! x) = k) ids)"
proof -
  let ?f = "\<lambda>x. - int (map length ls ! x)"
  let ?r = "sort_key ?f ids"
  have res: "sort_by_neg_length (map length ls) ids = Inr ?r"
    using assms by (simp add: sort_by_neg_length_def)
  have perm: "mset ?r = mset ids" by simp
  then have "set ?r = set ids" by (rule mset_eq_setD)
  with assms have range: "\<forall>x \<in> set ?r. x < length ls" by simp
  have key: "?f x = - int (length (ls ! x))" if "x < length ls" for x
    using that by simp
  have "sorted (map ?f ?r)" by (rule sorted_sort_key)
  then have "sorted_wrt (\<lambda>a b. ?f a \<le> ?f b) ?r"
    by (simp only: sorted_map)
  then have desc: "sorted_wrt (\<lambda>a b. length (ls ! b) \<le> length (ls ! a)) ?r"
  proof (rule sorted_wrt_mono_rel [rotated])
    fix a b
    assume "a \<in> set ?r" and "b \<in> set ?r" and "?f a \<le> ?f b"
    with range show "length (ls ! b) \<le> length (ls ! a)"
      by (simp add: key)
  qed
  have stable: "filter (\<lambda>x. length (ls ! x) = k) ?r = filter (\<lambda>x. length (ls ! x) = k) ids" for k
  proof -
    have "filter (\<lambda>x. length (ls ! x) = k) ?r = filter (\<lambda>x. ?f x = - int k) ?r"
      using range by (intro filter_cong refl) (auto simp: key)
    also have "\<dots> = filter (\<lambda>x. ?f x = - int k) ids"
      by (rule sort_key_stable)
    also have "\<dots> = filter (\<lambda>x. length (ls ! x) = k) ids"
      using assms by (intro filter_cong refl) (auto simp: key)
    finally show ?thesis .
  qed
  from res perm desc stable show ?thesis by blast
qed

text \<open>Evaluation of the model on concrete inputs.\<close>

lemmas sampler_eval =
  sampler_def sampler_ids_def sort_by_neg_length_def sampler_loop_Nil sampler_loop_pop
  sampler_body_def discharge_def init_state_def dataset_len_def random_shuffle_def
  randbelow_def Let_def

lemmas example_defs =
  example_loader_def example_dataset_def zero_rng_def one_rng_def

lemma example_parallel: "parallel_lists (dataset (example_loader bs shuf srt))"
  by (simp add: parallel_lists_def example_defs)

lemma example_sampler_plain:
  "fst (sampler (example_loader 20 False False) g) = ([[2, 1], [0]], None)"
  by (simp add: sampler_eval example_defs)

lemma example_sampler_shuffled:
  "fst (sampler (example_loader 20 True True) zero_rng) = ([[1, 0], [2]], None)"
  by (simp add: sampler_eval example_defs numeral_2_eq_2)

lemma example_sampler_small_budget:
  "fst (sampler (example_loader 8 False False) g) = ([[2], [1], [0]], None)"
  by (simp add: sampler_eval example_defs)

section \<open>Claims about the sampler\<close>

text \<open>
  C1. Every group the sampler yields that has more than one index costs at most the
  token budget: the longest bucketing length in the group times the number of its
  indices is at most \<open>batch_size\<close>. Only a group of one index may cost more. This
  holds for every dataset, budget, configuration and state of the random generator.
\<close>

theorem sampler_budget:
  assumes "grp \<in> set (fst (fst (sampler ld g)))" and "1 < length grp"
  shows "int (group_longest (dataset ld) grp * length grp) \<le> batch_size ld"
  using sampler_groups [OF assms(1)] assms(2)
  by (simp add: within_budget_def group_cost_def)

theorem sampler_budget_witness:
  "[2, 1] \<in> set (fst (fst (sampler (example_loader 20 False False) zero_rng))) \<and>
   1 < length [2, 1 :: nat] \<and>
   int (group_longest (dataset (example_loader 20 False False)) [2, 1] * length [2, 1 :: nat])
     \<le> batch_size (example_loader 20 False False)"
proof -
  have h1: "[2, 1] \<in> set (fst (fst (sampler (example_loader 20 False False) zero_rng)))"
    by (simp add: example_sampler_plain)
  have h2: "1 < length [2, 1 :: nat]" by simp
  from h1 h2 sampler_budget [OF h1 h2] show ?thesis by (intro conjI)
qed

text \<open>
  C2. On a dataset of size \<open>n\<close> (0 included) whose lists are parallel, and for every
  budget (every positive one in particular), the sampler runs to its end without an
  exception, the concatenation of the groups it yields is a permutation of
  \<open>[0, ..., n-1]\<close> (every index occurs exactly once), and no group is empty.
\<close>

theorem sampler_partition:
  assumes "parallel_lists (dataset ld)"
  shows "snd (fst (sampler ld g)) = None \<and>
         mset (concat (fst (fst (sampler ld g)))) = mset [0 ..< dataset_len (dataset ld)] \<and>
         distinct (concat (fst (fst (sampler ld g)))) \<and>
         set (concat (fst (fst (sampler ld g)))) = {0 ..< dataset_len (dataset ld)} \<and>
         (\<forall>grp \<in> set (fst (fst (sampler ld g))). grp \<noteq> [])"
proof -
  let ?n = "dataset_len (dataset ld)"
  from sampler_ids_ok [OF assms, of g]
  obtain ids where ids: "fst (sampler_ids ld g) = Inr ids" and perm: "mset ids = mset [0 ..< ?n]"
    by blast
  have run: "fst (sampler ld g) = sampler_loop ld ids init_state"
    using ids by (cases "sampler_ids ld g") (simp add: sampler_def)
  from perm have "set ids = set [0 ..< ?n]" by (rule mset_eq_setD)
  moreover have "length (linearized (dataset ld)) = ?n"
    using assms by (simp add: parallel_lists_def dataset_len_def)
  ultimately have "\<forall>i \<in> set ids. i < length (linearized (dataset ld))" by simp
  from sampler_loop_partition [OF state_inv_init this]
  have ended: "snd (fst (sampler ld g)) = None"
    and part: "mset (concat (fst (fst (sampler ld g)))) = mset [0 ..< ?n]"
    using run perm by (simp_all add: init_state_def)
  from part have "distinct (concat (fst (fst (sampler ld g)))) = distinct [0 ..< ?n]"
    by (rule mset_eq_imp_distinct_iff)
  then have dist: "distinct (concat (fst (fst (sampler ld g))))" by simp
  from part have "set (concat (fst (fst (sampler ld g)))) = set [0 ..< ?n]"
    by (rule mset_eq_setD)
  then have elems: "set (concat (fst (fst (sampler ld g)))) = {0 ..< ?n}" by simp
  have nonempty: "\<forall>grp \<in> set (fst (fst (sampler ld g))). grp \<noteq> []"
    using sampler_groups by blast
  from ended part dist elems nonempty show ?thesis by (intro conjI)
qed

theorem sampler_partition_witness:
  "parallel_lists (dataset (example_loader 20 True True)) \<and>
   0 < batch_size (example_loader 20 True True) \<and>
   fst (sampler (example_loader 20 True True) zero_rng) = ([[1, 0], [2]], None) \<and>
   mset (concat (fst (fst (sampler (example_loader 20 True True) zero_rng)))) =
     mset [0 ..< dataset_len (dataset (example_loader 20 True True))]"
proof -
  have h: "parallel_lists (dataset (example_loader 20 True True))"
    by (rule example_parallel)
  have b: "0 < batch_size (example_loader 20 True True)"
    by (simp add: example_loader_def)
  from sampler_partition [OF h, of zero_rng]
  have "mset (concat (fst (fst (sampler (example_loader 20 True True) zero_rng)))) =
     mset [0 ..< dataset_len (dataset (example_loader 20 True True))]"
    by (elim conjE)
  with h b example_sampler_shuffled show ?thesis by (intro conjI)
qed

text \<open>
  C3. With shuffle and sort disabled, on three examples of bucketing lengths 5, 3 and 9
  and a budget of 20, the sampler yields exactly the groups \<open>[2, 1]\<close> and \<open>[0]\<close>, in
  that order, and ends without an exception.
\<close>

theorem sampler_scenario:
  assumes "map length (linearized (dataset ld)) = [5, 3, 9]"
    and "dataset_len (dataset ld) = 3"
    and "batch_size ld = 20"
    and "\<not> shuffle ld" and "\<not> sort_flag ld"
  shows "sampler ld g = (([[2, 1], [0]], None), g)"
proof -
  from assms(1) obtain a b c where lin: "linearized (dataset ld) = [a, b, c]"
    and len: "length a = 5" "length b = 3" "length c = 9"
    by (auto simp: map_eq_Cons_conv)
  have ids: "sampler_ids ld g = (Inr [0, 1, 2], g)"
    using assms(2,4,5) by (simp add: sampler_ids_def upt_rec)
  have "sampler_loop ld [0, 1, 2] init_state = ([[2, 1], [0]], None)"
    using lin len assms(3)
    by (simp add: sampler_loop_Nil sampler_loop_pop sampler_body_def discharge_def
        init_state_def Let_def)
  with ids show ?thesis by (simp add: sampler_def)
qed

theorem sampler_scenario_witness:
  "map length (linearized (dataset (example_loader 20 False False))) = [5, 3, 9] \<and>
   dataset_len (dataset (example_loader 20 False False)) = 3 \<and>
   batch_size (example_loader 20 False False) = 20 \<and>
   \<not> shuffle (example_loader 20 False False) \<and>
   \<not> sort_flag (example_loader 20 False False) \<and>
   sampler (example_loader 20 False False) zero_rng = (([[2, 1], [0]], None), zero_rng)"
proof -
  have h1: "map length (linearized (dataset (example_loader 20 False False))) = [5, 3, 9]"
    by (simp add: example_defs)
  have h2: "dataset_len (dataset (example_loader 20 False False)) = 3"
    by (simp add: example_defs dataset_len_def)
  have h3: "batch_size (example_loader 20 False False) = 20"
    by (simp add: example_defs)
  have h4: "\<not> shuffle (example_loader 20 False False)"
    by (simp add: example_defs)
  have h5: "\<not> sort_flag (example_loader 20 False False)"
    by (simp add: example_defs)
  from h1 h2 h3 h4 h5 sampler_scenario [OF h1 h2 h3 h4 h5, of zero_rng]
  show ?thesis by (intro conjI)
qed

text \<open>
  C4. An example whose bucketing length alone exceeds the budget is not an error. The
  loop iteration that pops it yields the group before it, if there is one, and then
  the example as a group of its own, and leaves the running state empty; and every
  group the sampler yields that contains such an example consists of it alone.
\<close>

theorem oversized_singleton:
  assumes "batch_size ld < int (length (linearized (dataset ld) ! idx))"
  shows "(idx < length (linearized (dataset ld)) \<longrightarrow>
            sampler_body ld idx st =
              Inr ((if batch_ids st \<noteq> [] then [batch_ids st] else []) @ [[idx]], init_state)) \<and>
         (grp \<in> set (fst (fst (sampler ld g))) \<longrightarrow> idx \<in> set grp \<longrightarrow> grp = [idx])"
proof (intro conjI impI)
  assume range: "idx < length (linearized (dataset ld))"
  let ?size = "length (linearized (dataset ld) ! idx)"
  have "?size \<le> max ?size (batch_longest st) * (batch_nexamps st + 1)"
    by (simp add: max.coboundedI1)
  with assms have cand: "batch_size ld < int (max ?size (batch_longest st) * (batch_nexamps st + 1))"
    by linarith
  have "?size \<le> max (batch_longest st) ?size * (batch_nexamps st + 1)"
    by (simp add: max.coboundedI2)
  with assms have alone: "batch_size ld < int (max (batch_longest st) ?size * (batch_nexamps st + 1))"
    by linarith
  show "sampler_body ld idx st =
          Inr ((if batch_ids st \<noteq> [] then [batch_ids st] else []) @ [[idx]], init_state)"
  proof (cases "batch_ids st = []")
    case True
    with range alone show ?thesis
      by (simp add: sampler_body_def discharge_def init_state_def Let_def distrib_left)
  next
    case False
    with range cand assms show ?thesis
      by (simp add: sampler_body_def discharge_def init_state_def Let_def distrib_left)
  qed
next
  assume grp: "grp \<in> set (fst (fst (sampler ld g)))" and mem: "idx \<in> set grp"
  from sampler_groups [OF grp] have ne: "grp \<noteq> []" and wb: "within_budget ld grp"
    by simp_all
  have "\<not> 1 < length grp"
  proof
    assume many: "1 < length grp"
    with wb have "int (group_longest (dataset ld) grp * length grp) \<le> batch_size ld"
      by (simp add: within_budget_def group_cost_def)
    moreover have "length (linearized (dataset ld) ! idx) \<le> group_longest (dataset ld) grp"
      using mem by (rule group_longest_member)
    moreover have "group_longest (dataset ld) grp \<le> group_longest (dataset ld) grp * length grp"
      using many by simp
    ultimately show False using assms by linarith
  qed
  with ne have "length grp = 1" by (cases grp) auto
  then obtain x where "grp = [x]" by (cases grp) auto
  with mem show "grp = [idx]" by simp
qed

theorem oversized_singleton_witness:
  "batch_size (example_loader 8 False False)
     < int (length (linearized (dataset (example_loader 8 False False)) ! 2)) \<and>
   2 < length (linearized (dataset (example_loader 8 False False))) \<and>
   [2] \<in> set (fst (fst (sampler (example_loader 8 False False) zero_rng))) \<and>
   2 \<in> set [2 :: nat] \<and>
   sampler_body (example_loader 8 False False) 2 init_state = Inr ([[2]], init_state)"
proof -
  have h: "batch_size (example_loader 8 False False)
     < int (length (linearized (dataset (example_loader 8 False False)) ! 2))"
    by (simp add: example_defs)
  have r: "2 < length (linearized (dataset (example_loader 8 False False)))"
    by (simp add: example_defs)
  have m: "[2] \<in> set (fst (fst (sampler (example_loader 8 False False) zero_rng)))"
    by (simp add: example_sampler_small_budget)
  from oversized_singleton [OF h, of init_state] r
  have "sampler_body (example_loader 8 False False) 2 init_state = Inr ([[2]], init_state)"
    by (simp add: init_state_def)
  with h r m show ?thesis by simp
qed

text \<open>
  C5. With sort enabled on a dataset whose lists are parallel, the id list is a stable
  sort of the ids as they are before sorting. With shuffle enabled these are the
  shuffled ids and the order is by descending bucketing (linearized) length; with
  shuffle disabled they are \<open>0, ..., n-1\<close> and the order is by descending primary
  (tokenized) length. In both cases ids of equal length keep their relative order.
\<close>

theorem sampler_sort_key:
  assumes "sort_flag ld" and "parallel_lists (dataset ld)"
  shows "\<exists>ids. fst (sampler_ids ld g) = Inr ids \<and>
     (shuffle ld \<longrightarrow>
        mset ids = mset (fst (random_shuffle [0 ..< dataset_len (dataset ld)] g)) \<and>
        sorted_wrt (\<lambda>a b. length (linearized (dataset ld) ! b)
                          \<le> length (linearized (dataset ld) ! a)) ids \<and>
        (\<forall>k. filter (\<lambda>x. length (linearized (dataset ld) ! x) = k) ids =
              filter (\<lambda>x. length (linearized (dataset ld) ! x) = k)
                (fst (random_shuffle [0 ..< dataset_len (dataset ld)] g)))) \<and>
     (\<not> shuffle ld \<longrightarrow>
        mset ids = mset [0 ..< dataset_len (dataset ld)] \<and>
        sorted_wrt (\<lambda>a b. length (tokenized (dataset ld) ! b)
                          \<le> length (tokenized (dataset ld) ! a)) ids \<and>
        (\<forall>k. filter (\<lambda>x. length (tokenized (dataset ld) ! x) = k) ids =
              filter (\<lambda>x. length (tokenized (dataset ld) ! x) = k)
                [0 ..< dataset_len (dataset ld)]))"
proof -
  let ?n = "dataset_len (dataset ld)"
  have len: "length (linearized (dataset ld)) = ?n" "length (tokenized (dataset ld)) = ?n"
    using assms(2) by (simp_all add: parallel_lists_def dataset_len_def)
  show ?thesis
  proof (cases "shuffle ld")
    case True
    let ?pre = "fst (random_shuffle [0 ..< ?n] g)"
    have "set ?pre = set [0 ..< ?n]"
      by (rule mset_eq_setD) (rule random_shuffle_mset)
    then have "\<forall>x \<in> set ?pre. x < length (linearized (dataset ld))"
      using len by simp
    from sort_by_neg_length_spec [OF this] True assms(1) show ?thesis
      by (simp add: sampler_ids_sorted)
  next
    case False
    have "\<forall>x \<in> set [0 ..< ?n]. x < length (tokenized (dataset ld))"
      using len by simp
    from sort_by_neg_length_spec [OF this] False assms(1) show ?thesis
      by (simp add: sampler_ids_sorted)
  qed
qed

theorem sampler_sort_key_witness:
  "sort_flag (example_loader 20 False True) \<and>
   parallel_lists (dataset (example_loader 20 False True)) \<and>
   \<not> shuffle (example_loader 20 False True) \<and>
   fst (sampler_ids (example_loader 20 False True) zero_rng) = Inr [1, 0, 2] \<and>
   (\<exists>ids. fst (sampler_ids (example_loader 20 False True) zero_rng) = Inr ids \<and>
      mset ids = mset [0 ..< dataset_len (dataset (example_loader 20 False True))] \<and>
      sorted_wrt (\<lambda>a b. length (tokenized (dataset (example_loader 20 False True)) ! b)
                        \<le> length (tokenized (dataset (example_loader 20 False True)) ! a)) ids)"
proof -
  have h1: "sort_flag (example_loader 20 False True)"
    by (simp add: example_defs)
  have h2: "parallel_lists (dataset (example_loader 20 False True))"
    by (rule example_parallel)
  have h3: "\<not> shuffle (example_loader 20 False True)"
    by (simp add: example_defs)
  have v: "fst (sampler_ids (example_loader 20 False True) zero_rng) = Inr [1, 0, 2]"
    by (simp add: sampler_eval example_defs)
  from sampler_sort_key [OF h1 h2, of zero_rng] h3
  have "\<exists>ids. fst (sampler_ids (example_loader 20 False True) zero_rng) = Inr ids \<and>
      mset ids = mset [0 ..< dataset_len (dataset (example_loader 20 False True))] \<and>
      sorted_wrt (\<lambda>a b. length (tokenized (dataset (example_loader 20 False True)) ! b)
                        \<le> length (tokenized (dataset (example_loader 20 False True)) ! a)) ids"
    by blast
  with h1 h2 h3 v show ?thesis by (intro conjI)
qed

text \<open>
  C10. With shuffle disabled the sampler consults no random source: its groups and its
  ending are the same for any two states of the generator, and the generator is
  left as it was found.
\<close>

theorem sampler_deterministic:
  assumes "\<not> shuffle ld"
  shows "fst (sampler ld g) = fst (sampler ld g') \<and> snd (sampler ld g) = g"
  using assms
  by (simp add: sampler_def sampler_ids_def Let_def split: sum.splits)

theorem sampler_deterministic_witness:
  "\<not> shuffle (example_loader 20 False True) \<and>
   fst (sampler (example_loader 20 False True) zero_rng) =
     fst (sampler (example_loader 20 False True) one_rng) \<and>
   snd (sampler (example_loader 20 False True) zero_rng) = zero_rng"
proof -
  have h: "\<not> shuffle (example_loader 20 False True)"
    by (simp add: example_defs)
  from h sampler_deterministic [OF h, of zero_rng one_rng] show ?thesis by blast
qed

section \<open>Properties of the collator\<close>

lemma lookup_each_tokens:
  "map (\<lambda>s. s key_value) samples = map (\<lambda>t. Some (Tokens t)) seqs \<Longrightarrow>
   lookup_each key_value samples = Inr (map Tokens seqs)"
proof (induction samples arbitrary: seqs)
  case Nil
  then show ?case by simp
next
  case (Cons s samples)
  then obtain t ts where "seqs = t # ts" by (cases seqs) auto
  with Cons show ?case by simp
qed

lemma tokens_of_Tokens: "tokens_of (map Tokens seqs) = Inr seqs"
  by (induction seqs) simp_all

lemma exact_is_int64:
  assumes "\<bar>p\<bar> \<le> 2 ^ 53"
  shows "- (2 ^ 63) \<le> p \<and> p < (2 ^ 63 :: int)"
proof -
  have "(2 :: int) ^ 53 < 2 ^ 63" by simp
  with assms show ?thesis by linarith
qed

lemma fill_int64_exact: "\<bar>p\<bar> \<le> 2 ^ 53 \<Longrightarrow> fill_int64 p = Inr p"
  using exact_is_int64 [of p] by (simp add: fill_int64_def as_double_def)

lemma ne_exact:
  "\<bar>p\<bar> \<le> 2 ^ 53 \<Longrightarrow>
   ne t p = Inr (t\<lparr>rows := map (map (\<lambda>v. if v \<noteq> p then 1 else 0)) (rows t)\<rparr>)"
  using exact_is_int64 [of p] by (simp add: ne_def)

lemma bit_length_example: "bit_length 9007199254740993 = 54"
  by (simp add: bit_length.simps)

lemma as_double_example: "as_double 9007199254740993 = 9007199254740992"
  by (simp add: as_double_def bit_length_example Let_def)

lemma to_tensor_tokens:
  assumes "map (\<lambda>s. s key_value) samples = map (\<lambda>t. Some (Tokens t)) seqs"
    and "seqs \<noteq> []" and "\<bar>p\<bar> \<le> 2 ^ 53"
  shows "to_tensor samples key_value p dev True =
     Inr (\<lparr>rows = map (\<lambda>t. t @ replicate (fold max (map length seqs) 0 - length t) p) seqs,
           placed_on = dev\<rparr>,
          Some \<lparr>rows = map (\<lambda>t. map (\<lambda>v. if v \<noteq> p then 1 else 0)
                               (t @ replicate (fold max (map length seqs) 0 - length t) p)) seqs,
                placed_on = dev\<rparr>)"
  using assms(2)
  by (simp add: to_tensor_def lookup_each_tokens [OF assms(1)] pad_sequence_def
      tokens_of_Tokens fill_int64_exact [OF assms(3)] ne_exact [OF assms(3)]
      to_device_def Let_def comp_def)

lemma mask_ones:
  "p \<notin> set t \<Longrightarrow> map (\<lambda>v. if v \<noteq> p then 1 else 0) t = replicate (length t) (1::int)"
  by (induction t) auto

lemma unpad_append:
  "map fst (filter (\<lambda>(v, b). b = 1)
     (zip (t @ replicate k p) (replicate (length t) (1::int) @ replicate k 0))) = t"
proof -
  have a: "map fst (filter (\<lambda>(v, b). b = 1) (zip t (replicate (length t) (1::int)))) = t"
    by (induction t) auto
  have b: "filter (\<lambda>(v, b). b = 1) (zip (replicate k p) (replicate k (0::int))) = []"
    by (induction k) auto
  show ?thesis by (simp add: a b)
qed

section \<open>Claims about the collator\<close>

text \<open>
  C7, as amended. Take any list of N \<ge> 1 samples holding integer sequences under the
  key and any pad value of magnitude at most \<open>2^53\<close> (a value the int64 tensor holds
  exactly). Then \<open>to_tensor\<close> returns a padded tensor and a mask with one row per
  sequence, in the order given, and the first \<open>length\<close> entries of row \<open>i\<close> of the
  padded tensor are sequence \<open>i\<close>. If moreover the pad value occurs in none of the
  sequences, then in row \<open>i\<close> the mask is 1 at position \<open>j\<close> iff \<open>j\<close> is less than the
  original length of sequence \<open>i\<close>, and row \<open>i\<close> of the padded tensor at the positions
  where the mask is 1 is sequence \<open>i\<close>.
\<close>

theorem to_tensor_mask:
  assumes "map (\<lambda>s. s key_value) samples = map (\<lambda>t. Some (Tokens t)) seqs"
    and "seqs \<noteq> []"
    and "\<bar>p\<bar> \<le> 2 ^ 53"
    and "i < length seqs"
  shows "\<exists>ids m. to_tensor samples key_value p dev True = Inr (ids, Some m) \<and>
      length (rows ids) = length seqs \<and> length (rows m) = length seqs \<and>
      length (rows m ! i) = length (rows ids ! i) \<and>
      take (length (seqs ! i)) (rows ids ! i) = seqs ! i \<and>
      ((\<forall>t \<in> set seqs. p \<notin> set t) \<longrightarrow>
         (\<forall>j < length (rows ids ! i). (rows m ! i ! j = 1) = (j < length (seqs ! i))) \<and>
         unpad_row ids m i = seqs ! i)"
proof -
  let ?k = "fold max (map length seqs) 0 - length (seqs ! i)"
  let ?ids = "\<lparr>rows = map (\<lambda>t. t @ replicate (fold max (map length seqs) 0 - length t) p) seqs,
               placed_on = dev\<rparr>"
  let ?m = "\<lparr>rows = map (\<lambda>t. map (\<lambda>v. if v \<noteq> p then 1 else 0)
                               (t @ replicate (fold max (map length seqs) 0 - length t) p)) seqs,
             placed_on = dev\<rparr>"
  have res: "to_tensor samples key_value p dev True = Inr (?ids, Some ?m)"
    by (rule to_tensor_tokens [OF assms(1,2,3)])
  have row: "rows ?ids ! i = seqs ! i @ replicate ?k p"
    using assms(4) by simp
  have len: "length (rows ?m ! i) = length (rows ?ids ! i)"
    using assms(4) by simp
  have cut: "take (length (seqs ! i)) (rows ?ids ! i) = seqs ! i"
    by (simp only: row) simp
  have n1: "length (rows ?ids) = length seqs" and n2: "length (rows ?m) = length seqs"
    by simp_all
  have clean: "(\<forall>j < length (rows ?ids ! i). (rows ?m ! i ! j = 1) = (j < length (seqs ! i))) \<and>
               unpad_row ?ids ?m i = seqs ! i"
    if absent: "\<forall>t \<in> set seqs. p \<notin> set t"
  proof -
    from absent assms(4) have "p \<notin> set (seqs ! i)" by simp
    then have mrow: "rows ?m ! i = replicate (length (seqs ! i)) 1 @ replicate ?k 0"
      using assms(4) by (simp add: mask_ones)
    have bits: "\<forall>j < length (rows ?ids ! i). (rows ?m ! i ! j = 1) = (j < length (seqs ! i))"
      by (simp only: row mrow) (simp add: nth_append)
    have unpad: "unpad_row ?ids ?m i = seqs ! i"
      unfolding unpad_row_def by (simp only: row mrow unpad_append)
    from bits unpad show ?thesis by (rule conjI)
  qed
  from res n1 n2 len cut clean show ?thesis by blast
qed

theorem to_tensor_mask_witness:
  "map (\<lambda>s. s ''tokenized_ids'') plain_samples = map (\<lambda>t. Some (Tokens t)) [[5, 6, 7], [8]] \<and>
   [[5, 6, 7], [8 :: int]] \<noteq> [] \<and>
   \<bar>1 :: int\<bar> \<le> 2 ^ 53 \<and>
   list_all (\<lambda>t. 1 \<notin> set t) [[5, 6, 7], [8 :: int]] \<and>
   1 < length [[5, 6, 7], [8 :: int]] \<and>
   to_tensor plain_samples ''tokenized_ids'' 1 (CUDA 0) True =
     Inr (\<lparr>rows = [[5, 6, 7], [8, 1, 1]], placed_on = CUDA 0\<rparr>,
          Some \<lparr>rows = [[1, 1, 1], [1, 0, 0]], placed_on = CUDA 0\<rparr>) \<and>
   (\<exists>ids m. to_tensor plain_samples ''tokenized_ids'' 1 (CUDA 0) True = Inr (ids, Some m) \<and>
      take (length ([[5, 6, 7], [8 :: int]] ! 1)) (rows ids ! 1) = [[5, 6, 7], [8]] ! 1 \<and>
      unpad_row ids m 1 = [[5, 6, 7], [8]] ! 1)"
proof -
  have h1: "map (\<lambda>s. s ''tokenized_ids'') plain_samples =
            map (\<lambda>t. Some (Tokens t)) [[5, 6, 7], [8]]"
    by (simp add: plain_samples_def)
  have h2: "[[5, 6, 7], [8 :: int]] \<noteq> []" by simp
  have h3: "\<bar>1 :: int\<bar> \<le> 2 ^ 53" by simp
  have h4: "1 < length [[5, 6, 7], [8 :: int]]" by simp
  have h5: "\<forall>t \<in> set [[5, 6, 7], [8 :: int]]. 1 \<notin> set t" by simp
  have h5': "list_all (\<lambda>t. 1 \<notin> set t) [[5, 6, 7], [8 :: int]]" by simp
  have v: "to_tensor plain_samples ''tokenized_ids'' 1 (CUDA 0) True =
     Inr (\<lparr>rows = [[5, 6, 7], [8, 1, 1]], placed_on = CUDA 0\<rparr>,
          Some \<lparr>rows = [[1, 1, 1], [1, 0, 0]], placed_on = CUDA 0\<rparr>)"
    by (simp add: to_tensor_def plain_samples_def pad_sequence_def fill_int64_def as_double_def
        ne_def to_device_def)
  from to_tensor_mask [OF h1 h2 h3 h4, of "CUDA 0"] h5
  have "\<exists>ids m. to_tensor plain_samples ''tokenized_ids'' 1 (CUDA 0) True = Inr (ids, Some m) \<and>
      take (length ([[5, 6, 7], [8 :: int]] ! 1)) (rows ids ! 1) = [[5, 6, 7], [8]] ! 1 \<and>
      unpad_row ids m 1 = [[5, 6, 7], [8]] ! 1"
    by blast
  with h1 h2 h3 h5' h4 v show ?thesis by (intro conjI)
qed

text \<open>
  C7 as stated fails in two ways. For a pad value that occurs in a sequence: the mask
  is computed from the padded values (\<open>torch.ne(input_ids, padding_value)\<close>), not from
  the lengths, so for the one sequence \<open>[1, 2]\<close> and pad value 1 the mask is \<open>[0, 1]\<close>:
  position 0 is inside the sequence and masked out, and the positions where the mask
  is 1 give \<open>[2]\<close>. For a pad value the tensor does not hold exactly: with pad value
  \<open>2^53 + 1\<close> the sequences \<open>[5, 6, 7]\<close> and \<open>[8]\<close> are padded with \<open>2^53\<close>, which differs
  from the pad value, so the mask is 1 at the padded positions 1 and 2 of row 1.
\<close>

theorem to_tensor_mask_counterexample:
  "pad_clash_sample ''tokenized_ids'' = Some (Tokens [1, 2]) \<and>
   to_tensor [pad_clash_sample] ''tokenized_ids'' 1 CPU True =
     Inr (\<lparr>rows = [[1, 2]], placed_on = CPU\<rparr>, Some \<lparr>rows = [[0, 1]], placed_on = CPU\<rparr>) \<and>
   rows \<lparr>rows = [[0, 1]], placed_on = CPU\<rparr> ! 0 ! 0 \<noteq> 1 \<and>
   0 < length [1, 2 :: int] \<and>
   unpad_row \<lparr>rows = [[1, 2]], placed_on = CPU\<rparr> \<lparr>rows = [[0, 1]], placed_on = CPU\<rparr> 0 \<noteq> [1, 2] \<and>
   to_tensor plain_samples ''tokenized_ids'' 9007199254740993 CPU True =
     Inr (\<lparr>rows = [[5, 6, 7], [8, 9007199254740992, 9007199254740992]], placed_on = CPU\<rparr>,
          Some \<lparr>rows = [[1, 1, 1], [1, 1, 1]], placed_on = CPU\<rparr>) \<and>
   rows \<lparr>rows = [[1, 1, 1], [1, 1, 1]], placed_on = CPU\<rparr> ! 1 ! 1 = 1 \<and>
   \<not> 1 < length [8 :: int]"
proof -
  have clash: "to_tensor [pad_clash_sample] ''tokenized_ids'' 1 CPU True =
     Inr (\<lparr>rows = [[1, 2]], placed_on = CPU\<rparr>, Some \<lparr>rows = [[0, 1]], placed_on = CPU\<rparr>)"
    by (simp add: to_tensor_def pad_clash_sample_def pad_sequence_def fill_int64_def
        as_double_def ne_def to_device_def)
  have stored: "fill_int64 9007199254740993 = Inr 9007199254740992"
    by (simp add: fill_int64_def as_double_example)
  have inexact: "to_tensor plain_samples ''tokenized_ids'' 9007199254740993 CPU True =
     Inr (\<lparr>rows = [[5, 6, 7], [8, 9007199254740992, 9007199254740992]], placed_on = CPU\<rparr>,
          Some \<lparr>rows = [[1, 1, 1], [1, 1, 1]], placed_on = CPU\<rparr>)"
    by (simp add: to_tensor_def plain_samples_def pad_sequence_def stored ne_def to_device_def)
  from clash inexact show ?thesis
    by (simp add: pad_clash_sample_def unpad_row_def)
qed

section \<open>Properties of the loader\<close>

lemma getitem_each_all2:
  "getitem_each ds b = Inr xs \<Longrightarrow> list_all2 (\<lambda>i s. getitem ds i = Inr s) b xs"
  by (induction b arbitrary: xs) (auto split: sum.splits)

lemma getitem_groups_all2:
  "getitem_groups ds groups = Inr its \<Longrightarrow>
   list_all2 (list_all2 (\<lambda>i s. getitem ds i = Inr s)) groups its"
  by (induction groups arbitrary: its) (auto split: sum.splits dest: getitem_each_all2)

lemma loader_iter_groups:
  assumes "fst (loader_iter ld g) = Inr it"
  shows "\<exists>its. getitem_groups (dataset ld) (fst (fst (sampler ld g))) = Inr its \<and>
               mset it = mset its \<and> (\<not> shuffle ld \<longrightarrow> it = its)"
proof -
  obtain groups r g1 where s: "sampler ld g = ((groups, r), g1)"
    by (metis surj_pair)
  from assms s obtain its where its: "getitem_groups (dataset ld) groups = Inr its"
    by (cases "getitem_groups (dataset ld) groups") (simp_all add: loader_iter_def)
  from assms s its have r: "r = None"
    by (cases r) (simp_all add: loader_iter_def)
  have "it = (if shuffle ld then fst (random_shuffle its g1) else its)"
    using assms s its r
    by (cases "random_shuffle its g1") (auto simp: loader_iter_def split: if_splits)
  then have "mset it = mset its" and "\<not> shuffle ld \<longrightarrow> it = its"
    by (simp_all add: random_shuffle_mset)
  with its s show ?thesis by simp
qed

lemma lookup_each_map:
  "lookup_each key_value samples = Inr fs \<Longrightarrow> map Some fs = map (\<lambda>s. s key_value) samples"
  by (induction samples arbitrary: fs) (auto split: option.splits sum.splits)

lemma to_tensor_device:
  "to_tensor samples key_value p d rm = Inr (t, m) \<Longrightarrow>
   placed_on t = d \<and> (case m of None \<Rightarrow> True | Some t' \<Rightarrow> placed_on t' = d)"
  by (auto simp: to_tensor_def to_device_def ne_def pad_sequence_def Let_def
      split: sum.splits if_splits)

lemma collate_targets_device:
  "collate_targets ds samples d = Inr (gs, ls, Some (dec, lab)) \<Longrightarrow>
   placed_on dec = d \<and> placed_on lab = d"
  by (auto simp: collate_targets_def split: list.splits if_splits sum.splits
      dest: to_tensor_device)

lemma collate_fn_device:
  assumes "collate_fn ds samples d = Inr v"
  shows "batch_on d v"
  using assms
  by (auto simp: collate_fn_def batch_on_def
      split: sum.splits option.splits prod.splits
      dest: to_tensor_device collate_targets_device)

lemma collate_fn_ids:
  assumes "collate_fn ds samples d = Inr v"
  shows "map Some (extra_ids v) = map (\<lambda>s. s ''id'') samples"
  using assms
  by (auto simp: collate_fn_def split: sum.splits option.splits prod.splits
      dest: lookup_each_map)


lemma sampler_body_device: "sampler_body (ld\<lparr>device := d\<rparr>) idx st = sampler_body ld idx st"
  by (simp add: sampler_body_def)

lemma sampler_loop_device: "sampler_loop (ld\<lparr>device := d\<rparr>) ids st = sampler_loop ld ids st"
proof (induction ld ids st rule: sampler_loop.induct)
  case (1 ld ids st)
  show ?case
  proof (cases "ids = []")
    case True
    then show ?thesis by (simp add: sampler_loop_Nil)
  next
    case False
    show ?thesis
    proof (cases "sampler_body ld (last ids) st")
      case (Inl e)
      with False show ?thesis by (simp add: sampler_loop_pop sampler_body_device)
    next
      case (Inr p)
      obtain out st' where p: "p = (out, st')" by (cases p)
      from "1.IH" [OF False Inr [unfolded p] refl] False Inr p show ?thesis
        by (simp add: sampler_loop_pop sampler_body_device)
    qed
  qed
qed

lemma sampler_ids_device: "sampler_ids (ld\<lparr>device := d\<rparr>) g = sampler_ids ld g"
  by (simp add: sampler_ids_def Let_def split: prod.splits)

lemma sampler_device: "sampler (ld\<lparr>device := d\<rparr>) g = sampler ld g"
  by (simp add: sampler_def sampler_ids_device sampler_loop_device split: prod.splits sum.splits)

lemmas loader_eval =
  loader_iter_def iter_next_def getitem_def collate_fn_def collate_targets_def to_tensor_def
  pad_sequence_def fill_int64_def as_double_def ne_def to_device_def example_extra_def

lemma example_pending_iter:
  "fst (loader_iter (example_loader 20 False False) zero_rng) = Inr example_pending"
  by (simp add: example_pending_def loader_eval sampler_eval example_defs)

lemma example_next_cpu:
  "next_batch_device (example_loader 20 False False) example_pending = Some CPU"
  by (simp add: next_batch_device_def example_pending_def loader_eval sampler_eval example_defs)

lemma example_next_moved:
  "next_batch_device moved_loader example_pending = Some (CUDA 0)"
  by (simp add: next_batch_device_def moved_loader_def example_pending_def loader_eval
      sampler_eval example_defs)


lemma shuffled_pending_iter:
  "fst (loader_iter (example_loader 20 True False) zero_rng) = Inr shuffled_pending"
  by (simp add: shuffled_pending_def loader_eval sampler_eval example_defs numeral_2_eq_2)

lemma shuffled_pending_ids:
  "map (map (\<lambda>s. s ''id'')) shuffled_pending = [[Some (Index 1)], [Some (Index 0), Some (Index 2)]]"
  by (simp add: shuffled_pending_def loader_eval sampler_eval example_defs numeral_2_eq_2)

lemma shuffled_sampler:
  "fst (fst (sampler (example_loader 20 True False) zero_rng)) = [[0, 2], [1]]"
  by (simp add: sampler_eval example_defs numeral_2_eq_2)

lemma tokens_of_map: "tokens_of fs = Inr ts \<Longrightarrow> fs = map Tokens ts"
proof (induction fs arbitrary: ts rule: tokens_of.induct)
  case 1
  then show ?case by simp
next
  case (2 t fs)
  then show ?case by (auto split: sum.splits)
qed simp_all

lemma to_tensor_rows:
  assumes "to_tensor samples key_value p d rm = Inr (t, m)"
  shows "list_all2 (\<lambda>s r. \<exists>ts. s key_value = Some (Tokens ts) \<and> take (length ts) r = ts)
           samples (rows t)"
proof -
  from assms obtain fs where fs: "lookup_each key_value samples = Inr fs"
    by (cases "lookup_each key_value samples") (simp_all add: to_tensor_def)
  from assms fs obtain tss where tss: "tokens_of fs = Inr tss"
    by (cases "tokens_of fs") (simp_all add: to_tensor_def pad_sequence_def split: if_splits)
  have keys: "map (\<lambda>s. s key_value) samples = map (\<lambda>ts. Some (Tokens ts)) tss"
    using lookup_each_map [OF fs] tokens_of_map [OF tss] by (simp add: comp_def)
  from assms fs tss obtain v where v: "fill_int64 p = Inr v"
    by (cases "fill_int64 p") (simp_all add: to_tensor_def pad_sequence_def split: if_splits)
  have rows: "rows t = map (\<lambda>ts. ts @ replicate (fold max (map length tss) 0 - length ts) v) tss"
    using assms fs tss v
    by (auto simp: to_tensor_def pad_sequence_def to_device_def Let_def
        split: if_splits sum.splits)
  from keys have len: "length samples = length tss"
    by (rule map_eq_imp_length_eq)
  show ?thesis
  proof (rule list_all2_all_nthI)
    show "length samples = length (rows t)" using len rows by simp
  next
    fix n assume n: "n < length samples"
    from keys n len have "(samples ! n) key_value = Some (Tokens (tss ! n))"
      by (metis (mono_tags, lifting) nth_map)
    moreover have "take (length (tss ! n)) (rows t ! n) = tss ! n"
      using n len rows by simp
    ultimately show "\<exists>ts. (samples ! n) key_value = Some (Tokens ts) \<and>
                          take (length ts) (rows t ! n) = ts"
      by blast
  qed
qed

lemma collate_fn_rows:
  assumes "collate_fn ds samples d = Inr v"
  shows "list_all2 (\<lambda>s r. \<exists>ts. s ''tokenized_ids'' = Some (Tokens ts) \<and> take (length ts) r = ts)
           samples (rows (input_ids v))"
  using assms
  by (auto simp: collate_fn_def split: sum.splits option.splits prod.splits
      dest: to_tensor_rows)

lemma sampler_complete:
  assumes "parallel_lists (dataset ld)"
  shows "snd (fst (sampler ld g)) = None \<and>
         mset (concat (fst (fst (sampler ld g)))) = mset [0 ..< dataset_len (dataset ld)]"
proof -
  let ?n = "dataset_len (dataset ld)"
  from sampler_ids_ok [OF assms, of g]
  obtain ids where ids: "fst (sampler_ids ld g) = Inr ids" and perm: "mset ids = mset [0 ..< ?n]"
    by blast
  have run: "fst (sampler ld g) = sampler_loop ld ids init_state"
    using ids by (cases "sampler_ids ld g") (simp add: sampler_def)
  from perm have "set ids = set [0 ..< ?n]" by (rule mset_eq_setD)
  moreover have "length (linearized (dataset ld)) = ?n"
    using assms by (simp add: parallel_lists_def dataset_len_def)
  ultimately have "\<forall>i \<in> set ids. i < length (linearized (dataset ld))" by simp
  from sampler_loop_partition [OF state_inv_init this] run perm
  show ?thesis by (simp add: init_state_def)
qed

lemma singletons_concat:
  "\<forall>grp \<in> set groups. length grp = 1 \<Longrightarrow> groups = map (\<lambda>i. [i]) (concat groups)"
proof (induction groups)
  case Nil
  then show ?case by simp
next
  case (Cons grp groups)
  then obtain i where "grp = [i]" by (cases grp) auto
  with Cons show ?case by simp
qed

lemma negative_budget_singleton:
  assumes "batch_size ld < 0" and "grp \<in> set (fst (fst (sampler ld g)))"
  shows "length grp = 1"
proof -
  from sampler_groups [OF assms(2)] have ne: "grp \<noteq> []" and wb: "within_budget ld grp"
    by simp_all
  have "\<not> 1 < length grp"
  proof
    assume "1 < length grp"
    with wb have "int (group_cost (dataset ld) grp) \<le> batch_size ld"
      by (simp add: within_budget_def)
    with assms(1) show False by simp
  qed
  with ne show ?thesis by (cases grp) auto
qed

section \<open>Claims about the loader\<close>

text \<open>
  C6, as amended. Constructing the loader is never rejected: for every budget, zero and
  negative ones included, \<open>__init__\<close> returns a loader that holds the budget and the
  other arguments unchanged. Under a negative budget every group the sampler of that
  loader yields has exactly one index; and on a dataset whose lists are parallel the
  sampler then runs to its end without an exception and yields every example as a
  group of its own: its groups are, up to their order, the one-element groups
  \<open>[0]\<close>, ..., \<open>[n-1]\<close>.
\<close>

theorem init_accepts_any_budget:
  "\<exists>ld. init ds bs dev shuf srt = Inr ld \<and>
         batch_size ld = bs \<and> dataset ld = ds \<and> device ld = dev \<and>
         shuffle ld = shuf \<and> sort_flag ld = srt \<and>
         (bs < 0 \<longrightarrow> grp \<in> set (fst (fst (sampler ld g))) \<longrightarrow> length grp = 1) \<and>
         (bs < 0 \<longrightarrow> parallel_lists ds \<longrightarrow>
            snd (fst (sampler ld g)) = None \<and>
            mset (fst (fst (sampler ld g))) = mset (map (\<lambda>i. [i]) [0 ..< dataset_len ds]))"
proof -
  let ?ld = "\<lparr>batch_size = bs, dataset = ds, device = dev, shuffle = shuf, sort_flag = srt\<rparr>"
  let ?groups = "fst (fst (sampler ?ld g))"
  have one: "length grp = 1" if "bs < 0" and "grp \<in> set ?groups" for grp
    using that negative_budget_singleton [of ?ld grp g] by simp
  have all: "snd (fst (sampler ?ld g)) = None \<and>
             mset ?groups = mset (map (\<lambda>i. [i]) [0 ..< dataset_len ds])"
    if neg: "bs < 0" and par: "parallel_lists ds"
  proof -
    from par sampler_complete [of ?ld g]
    have ended: "snd (fst (sampler ?ld g)) = None"
      and perm: "mset (concat ?groups) = mset [0 ..< dataset_len ds]"
      by simp_all
    from one [OF neg] have "\<forall>grp \<in> set ?groups. length grp = 1" by blast
    then have "?groups = map (\<lambda>i. [i]) (concat ?groups)" by (rule singletons_concat)
    then have "mset ?groups = image_mset (\<lambda>i. [i]) (mset (concat ?groups))"
      by (metis mset_map)
    also have "\<dots> = mset (map (\<lambda>i. [i]) [0 ..< dataset_len ds])"
      using perm by simp
    finally show ?thesis using ended by simp
  qed
  from one all show ?thesis by (simp add: init_def)
qed

theorem init_accepts_any_budget_witness:
  "init example_dataset (- 5) CPU False False = Inr (example_loader (- 5) False False) \<and>
   (- 5 :: int) < 0 \<and>
   parallel_lists example_dataset \<and>
   fst (sampler (example_loader (- 5) False False) zero_rng) = ([[2], [1], [0]], None) \<and>
   (\<exists>ld. init example_dataset (- 5) CPU False False = Inr ld \<and> batch_size ld = - 5 \<and>
      snd (fst (sampler ld zero_rng)) = None \<and>
      mset (fst (fst (sampler ld zero_rng))) =
        mset (map (\<lambda>i. [i]) [0 ..< dataset_len example_dataset]))"
proof -
  have v: "init example_dataset (- 5) CPU False False = Inr (example_loader (- 5) False False)"
    by (simp add: init_def example_loader_def)
  have n: "(- 5 :: int) < 0" by simp
  have p: "parallel_lists example_dataset"
    by (simp add: parallel_lists_def example_dataset_def)
  have s: "fst (sampler (example_loader (- 5) False False) zero_rng) = ([[2], [1], [0]], None)"
    by (simp add: sampler_eval example_defs)
  from init_accepts_any_budget [of example_dataset "- 5" CPU False False _ zero_rng] n p
  have "\<exists>ld. init example_dataset (- 5) CPU False False = Inr ld \<and> batch_size ld = - 5 \<and>
      snd (fst (sampler ld zero_rng)) = None \<and>
      mset (fst (fst (sampler ld zero_rng))) =
        mset (map (\<lambda>i. [i]) [0 ..< dataset_len example_dataset])"
    by blast
  with v n p s show ?thesis by (intro conjI)
qed

text \<open>
  C6 as stated fails: construction with budget 0 and with budget -5 returns a loader,
  and the sampler of that loader runs and yields each example as a group of its own.
\<close>

theorem init_zero_budget_counterexample:
  "init example_dataset 0 CPU False False = Inr (example_loader 0 False False) \<and>
   init example_dataset (- 5) CPU False False = Inr (example_loader (- 5) False False) \<and>
   fst (sampler (example_loader 0 False False) zero_rng) = ([[2], [1], [0]], None) \<and>
   fst (sampler (example_loader (- 5) False False) zero_rng) = ([[2], [1], [0]], None)"
  by (simp add: init_def sampler_eval example_defs)

text \<open>
  C8, as amended. The attributes \<open>device\<close> and \<open>batch_size\<close> can be reassigned after
  construction. Starting an iteration does not read \<open>device\<close>, and a \<open>next\<close> on an
  iterator does not read \<open>batch_size\<close>: the groups of an iterator in flight were formed
  when it was started, so a new budget takes effect only with the next call that
  starts an iteration. A new device is not deferred: every batch is placed on the
  device the loader holds at the \<open>next\<close> that produces it, also for an iterator started
  before the reassignment.
\<close>

theorem reassignment_effect:
  "loader_iter (ld\<lparr>device := d\<rparr>) g = loader_iter ld g \<and>
   iter_next (ld\<lparr>batch_size := bs\<rparr>) it = iter_next ld it \<and>
   (iter_next (ld\<lparr>device := d\<rparr>) it = Some (Inr v, rest) \<longrightarrow> batch_on d v)"
proof (intro conjI impI)
  show "loader_iter (ld\<lparr>device := d\<rparr>) g = loader_iter ld g"
    by (simp add: loader_iter_def sampler_device split: prod.splits sum.splits option.splits)
  show "iter_next (ld\<lparr>batch_size := bs\<rparr>) it = iter_next ld it"
    by (cases it) (simp_all add: iter_next_def)
  assume "iter_next (ld\<lparr>device := d\<rparr>) it = Some (Inr v, rest)"
  then obtain b where "collate_fn (dataset ld) b d = Inr v"
    by (auto simp: iter_next_def split: list.splits sum.splits)
  then show "batch_on d v" by (rule collate_fn_device)
qed

theorem reassignment_effect_witness:
  "fst (loader_iter (example_loader 20 False False) zero_rng) = Inr example_pending \<and>
   loader_iter ((example_loader 20 False False)\<lparr>device := CUDA 0\<rparr>) zero_rng =
     loader_iter (example_loader 20 False False) zero_rng \<and>
   iter_next ((example_loader 20 False False)\<lparr>batch_size := 5\<rparr>) example_pending =
     iter_next (example_loader 20 False False) example_pending \<and>
   (\<exists>v rest. iter_next ((example_loader 20 False False)\<lparr>device := CUDA 0\<rparr>) example_pending =
                Some (Inr v, rest) \<and> batch_on (CUDA 0) v)"
proof -
  let ?ld = "example_loader 20 False False"
  have "next_batch_device (?ld\<lparr>device := CUDA 0\<rparr>) example_pending = Some (CUDA 0)"
    using example_next_moved by (simp add: moved_loader_def)
  then obtain v rest where
    nxt: "iter_next (?ld\<lparr>device := CUDA 0\<rparr>) example_pending = Some (Inr v, rest)"
    by (auto simp: next_batch_device_def split: option.splits sum.splits prod.splits)
  note r = reassignment_effect [where ld = ?ld and d = "CUDA 0" and g = zero_rng and bs = 5
      and it = example_pending and v = v and rest = rest]
  from r nxt have "batch_on (CUDA 0) v" by blast
  with nxt have "\<exists>v rest. iter_next (?ld\<lparr>device := CUDA 0\<rparr>) example_pending =
                Some (Inr v, rest) \<and> batch_on (CUDA 0) v"
    by blast
  with r example_pending_iter show ?thesis by blast
qed

text \<open>
  C8 as stated fails for \<open>device\<close>: an iteration is started on the example loader while
  its device is the CPU; after \<open>device\<close> is reassigned to \<open>cuda:0\<close> the first batch of
  that same iterator is on \<open>cuda:0\<close>, where without the reassignment it is on the CPU.
\<close>

theorem device_change_counterexample:
  "fst (loader_iter (example_loader 20 False False) zero_rng) = Inr example_pending \<and>
   device (example_loader 20 False False) = CPU \<and>
   device moved_loader = CUDA 0 \<and>
   next_batch_device (example_loader 20 False False) example_pending = Some CPU \<and>
   next_batch_device moved_loader example_pending = Some (CUDA 0)"
  using example_pending_iter example_next_cpu example_next_moved
  by (simp add: moved_loader_def example_loader_def)

text \<open>
  C9. When \<open>__iter__\<close> succeeds, the groups it hands to collation are the sampler's
  groups, each looked up index by index in the sampler's order, and the sequence of
  these groups is a permutation of the sampler's sequence (the same sequence when
  shuffle is off): shuffling reorders whole groups only. Collating a group keeps its
  order too: the ids of the batch are the ids of the group's samples in order, and
  row \<open>k\<close> of the padded input starts with the tokens of the \<open>k\<close>-th sample.
\<close>

theorem iter_keeps_groups:
  assumes "fst (loader_iter ld g) = Inr it"
  shows "(\<exists>its. list_all2 (list_all2 (\<lambda>i s. getitem (dataset ld) i = Inr s))
                  (fst (fst (sampler ld g))) its \<and>
                mset it = mset its \<and> (\<not> shuffle ld \<longrightarrow> it = its)) \<and>
         (iter_next ld' (b # rest) = Some (Inr v, rest') \<longrightarrow>
            rest' = rest \<and>
            map Some (extra_ids v) = map (\<lambda>s. s ''id'') b \<and>
            list_all2 (\<lambda>s r. \<exists>ts. s ''tokenized_ids'' = Some (Tokens ts) \<and> take (length ts) r = ts)
              b (rows (input_ids v)))"
proof (intro conjI impI)
  from loader_iter_groups [OF assms] obtain its
    where its: "getitem_groups (dataset ld) (fst (fst (sampler ld g))) = Inr its"
      and perm: "mset it = mset its" and same: "\<not> shuffle ld \<longrightarrow> it = its"
    by blast
  from getitem_groups_all2 [OF its] perm same
  show "\<exists>its. list_all2 (list_all2 (\<lambda>i s. getitem (dataset ld) i = Inr s))
                  (fst (fst (sampler ld g))) its \<and>
                mset it = mset its \<and> (\<not> shuffle ld \<longrightarrow> it = its)"
    by blast
next
  assume nxt: "iter_next ld' (b # rest) = Some (Inr v, rest')"
  then have c: "collate_fn (dataset ld') b (device ld') = Inr v" and r: "rest' = rest"
    by (auto simp: iter_next_def split: sum.splits)
  from r show "rest' = rest" .
  from c show "map Some (extra_ids v) = map (\<lambda>s. s ''id'') b" by (rule collate_fn_ids)
  from c show "list_all2 (\<lambda>s r. \<exists>ts. s ''tokenized_ids'' = Some (Tokens ts) \<and> take (length ts) r = ts)
              b (rows (input_ids v))"
    by (rule collate_fn_rows)
qed

theorem iter_keeps_groups_witness:
  "fst (loader_iter (example_loader 20 True False) zero_rng) = Inr shuffled_pending \<and>
   shuffle (example_loader 20 True False) \<and>
   fst (fst (sampler (example_loader 20 True False) zero_rng)) = [[0, 2], [1]] \<and>
   map (map (\<lambda>s. s ''id'')) shuffled_pending = [[Some (Index 1)], [Some (Index 0), Some (Index 2)]] \<and>
   (\<exists>its. list_all2 (list_all2 (\<lambda>i s. getitem (dataset (example_loader 20 True False)) i = Inr s))
            (fst (fst (sampler (example_loader 20 True False) zero_rng))) its \<and>
          mset shuffled_pending = mset its)"
proof -
  have sh: "shuffle (example_loader 20 True False)" by (simp add: example_loader_def)
  from iter_keeps_groups [OF shuffled_pending_iter]
  have "\<exists>its. list_all2 (list_all2 (\<lambda>i s. getitem (dataset (example_loader 20 True False)) i = Inr s))
            (fst (fst (sampler (example_loader 20 True False) zero_rng))) its \<and>
          mset shuffled_pending = mset its"
    by blast
  with shuffled_pending_iter sh shuffled_sampler shuffled_pending_ids show ?thesis
    by (intro conjI)
qed

end
